theory Spec2Isabelle
  imports Main
begin

section \<open>JavaScript values\<close>

text \<open>
  The values the library inspects.  An object is modelled together with its identity
  (\<open>ident\<close>, what \<open>===\<close> compares), its prototype and its own enumerable properties in
  enumeration order.  JavaScript keeps every prototype chain finite and acyclic, so the
  prototype is held inside the object.  Numbers are integers; function values are not data
  of this model: where the library accepts "a function or something else", the argument
  is a sum (\<open>arg\<close> below) that carries the function's behaviour.  (The slices of a
  combined state, in the section on \<open>combineReducers\<close>, add the built-in functions that
  every object inherits from \<open>Object.prototype\<close>.)
\<close>

datatype object = Object (ident: nat) (proto: "object option") (props: "(string \<times> val) list")
  and val = Undefined | Null | Bool bool | Num int | Str string | Ref object

fun typeof :: "val \<Rightarrow> string" where
  "typeof Undefined = ''undefined''"
| "typeof Null = ''object''"
| "typeof (Bool b) = ''boolean''"
| "typeof (Num n) = ''number''"
| "typeof (Str s) = ''string''"
| "typeof (Ref ob) = ''object''"

text \<open>\<open>a === b\<close>: primitives by value, objects by identity.\<close>

fun strict_eq :: "val \<Rightarrow> val \<Rightarrow> bool" where
  "strict_eq Undefined Undefined = True"
| "strict_eq Null Null = True"
| "strict_eq (Bool a) (Bool b) = (a = b)"
| "strict_eq (Num a) (Num b) = (a = b)"
| "strict_eq (Str a) (Str b) = (a = b)"
| "strict_eq (Ref a) (Ref b) = (ident a = ident b)"
| "strict_eq _ _ = False"

definition getPrototypeOf :: "object \<Rightarrow> val" where
  "getPrototypeOf ob = (case proto ob of None \<Rightarrow> Null | Some p \<Rightarrow> Ref p)"

text \<open>
  The root prototype \<open>Object.prototype\<close> with its enumerable properties (its built-in
  members are \<open>builtin_member\<close> below), the prototype of arrays, and literals.
\<close>

definition ObjectPrototype :: object where
  "ObjectPrototype = Object 0 None []"

definition ArrayPrototype :: object where
  "ArrayPrototype = Object 1 (Some ObjectPrototype) []"

definition object_literal :: "nat \<Rightarrow> (string \<times> val) list \<Rightarrow> object" where
  "object_literal i ps = Object i (Some ObjectPrototype) ps"

definition array_object :: "nat \<Rightarrow> (string \<times> val) list \<Rightarrow> object" where
  "array_object i ps = Object i (Some ArrayPrototype) ps"

text \<open>Truthiness, as \<open>if (v)\<close> and \<open>a && b\<close> test it.\<close>

fun truthy :: "val \<Rightarrow> bool" where
  "truthy Undefined = False"
| "truthy Null = False"
| "truthy (Bool b) = b"
| "truthy (Num n) = (n \<noteq> 0)"
| "truthy (Str s) = (s \<noteq> [])"
| "truthy (Ref ob) = True"

text \<open>
  Exceptions.  The library throws \<open>Error\<close> objects, one constructor per message; such an
  error carries the offending value where the message prints its kind.  \<open>Thrown v\<close> is
  the value \<open>v\<close> thrown by user code, and \<open>TypeError key\<close> the error of the language for
  a write to the property \<open>key\<close> that fails.
\<close>

datatype error =
    Thrown val
  | SeveralEnhancers
  | ExpectedEnhancerFunction val
  | ExpectedReducerFunction val
  | ExpectedListenerFunction val
  | ExpectedNextReducerFunction val
  | GetStateWhileDispatching
  | SubscribeWhileDispatching
  | UnsubscribeWhileDispatching
  | ActionsMustBePlainObjects val
  | UndefinedActionType
  | ReducersMayNotDispatch
  | InitReturnedUndefined string
  | ProbeReturnedUndefined string
  | SliceReturnedUndefined string val
  | BindExpectedObjectOrFunction val
  | TypeError string

text \<open>An \<open>Error\<close> object is truthy; a thrown value is as truthy as it is.\<close>

fun truthy_error :: "error \<Rightarrow> bool" where
  "truthy_error (Thrown v) = truthy v"
| "truthy_error e = True"

text \<open>An argument that is either a function, given by its behaviour, or another value.\<close>

datatype 'f arg = Function 'f | Value val

section \<open>utils/isPlainObject\<close>

text \<open>
  \<^verbatim>\<open>let proto = obj
  while (Object.getPrototypeOf(proto) !== null) { proto = Object.getPrototypeOf(proto) }\<close>
  The loop, started at \<open>proto\<close>; it returns the final value of \<open>proto\<close>.
\<close>

fun proto_walk :: "object \<Rightarrow> object" where
  "proto_walk (Object i None ps) = Object i None ps"
| "proto_walk (Object i (Some p) ps) = proto_walk p"

definition isPlainObject :: "val \<Rightarrow> bool" where
  "isPlainObject obj =
     (if typeof obj \<noteq> ''object'' \<or> obj = Null then False
      else (case obj of
              Ref ob \<Rightarrow> strict_eq (getPrototypeOf ob) (Ref (proto_walk ob))
            | _ \<Rightarrow> False))"

text \<open>The prototype chain of an object, the object first; its last element is the link
  whose own prototype is null.\<close>

fun chain :: "object \<Rightarrow> object list" where
  "chain (Object i None ps) = [Object i None ps]"
| "chain (Object i (Some p) ps) = Object i (Some p) ps # chain p"

section \<open>compose\<close>

text \<open>
  Function values as \<open>compose\<close> sees them: a function the caller passed in, the arrow
  \<^verbatim>\<open>(arg) => arg\<close>, or the arrow \<^verbatim>\<open>(...args) => a(b(...args))\<close> that \<open>reduce\<close> builds.
  The two arrows are new function objects, different from every function passed in.
\<close>

datatype 'a func =
    Given "'a \<Rightarrow> error + 'a"
  | IdentityArrow
  | ComposeArrow "'a func" "'a func"

fun call :: "'a func \<Rightarrow> 'a \<Rightarrow> error + 'a" where
  "call (Given f) x = f x"
| "call IdentityArrow x = Inr x"
| "call (ComposeArrow a b) x = (case call b x of Inl e \<Rightarrow> Inl e | Inr y \<Rightarrow> call a y)"

text \<open>\<open>funcs.reduce(...)\<close> without an initial value starts from the first element.\<close>

definition compose :: "'a func list \<Rightarrow> 'a func" where
  "compose funcs =
     (case funcs of
        [] \<Rightarrow> IdentityArrow
      | [f] \<Rightarrow> f
      | f # rest \<Rightarrow> foldl (\<lambda>a b. ComposeArrow a b) f rest)"

text \<open>\<open>f\<^sub>1(f\<^sub>2(\<dots>f\<^sub>n(x)))\<close>, an exception of an inner call ending the evaluation.\<close>

definition right_to_left :: "'a func list \<Rightarrow> 'a \<Rightarrow> error + 'a" where
  "right_to_left fs x =
     foldr (\<lambda>f r. case r of Inl e \<Rightarrow> Inl e | Inr y \<Rightarrow> call f y) fs (Inr x)"

section \<open>bindActionCreators\<close>






text \<open>
  An object that begins as the literal \<^verbatim>\<open>{}\<close> and to which the library assigns functions only
  (\<open>boundActionCreators\<close> here, \<open>finalReducers\<close> in \<open>combineReducers\<close>): its own properties in
  the order of their definition, and the function that has become its prototype, \<open>None\<close>
  as long as the prototype is still \<open>Object.prototype\<close>.
\<close>

datatype 'f function_map =
  FunctionMap (prototype: "'f option") (entries: "(string \<times> 'f) list")


text \<open>\<open>target[key] = v\<close> where the write defines or overwrites an own property.\<close>

fun put_own :: "(string \<times> 'v) list \<Rightarrow> string \<Rightarrow> 'v \<Rightarrow> (string \<times> 'v) list" where
  "put_own [] key v = [(key, v)]"
| "put_own ((k, w) # ps) key v = (if k = key then (k, v) # ps else (k, w) # put_own ps key v)"

text \<open>
  \<open>target[key] = f\<close> for a function \<open>f\<close>.  An own property is overwritten.  Otherwise the
  write follows the prototype chain.  The key \<open>__proto__\<close> finds the accessor of
  \<open>Object.prototype\<close>, whose setter makes \<open>f\<close> the prototype of \<open>target\<close> and defines no
  property.  Once a function is the prototype, \<open>name\<close> and \<open>length\<close> find a read-only
  property and \<open>caller\<close> and \<open>arguments\<close> a property that cannot be written either; the
  modules are strict code, where such a write throws a \<open>TypeError\<close>.  Every other key
  defines a new own property (a function is known by its behaviour, and is taken to have
  no property of its own that refuses a write).
\<close>

definition set_function :: "'f function_map \<Rightarrow> string \<Rightarrow> 'f \<Rightarrow> error + 'f function_map" where
  "set_function target key f =
     (if key \<in> set (map fst (entries target)) then
        Inr (FunctionMap (prototype target) (put_own (entries target) key f))
      else if key = ''__proto__'' then Inr (FunctionMap (Some f) (entries target))
      else
        (case prototype target of
           None \<Rightarrow> Inr (FunctionMap None (put_own (entries target) key f))
         | Some p \<Rightarrow>
             if key \<in> set [''name'', ''length'', ''caller'', ''arguments'']
             then Inl (TypeError key)
             else Inr (FunctionMap (Some p) (put_own (entries target) key f))))"



section \<open>createStore: the store\<close>

text \<open>
  The variables that the closures of one store share.  \<open>currentListeners\<close> and
  \<open>nextListeners\<close> hold references to arrays, and the code compares and mutates the arrays
  by reference, so the arrays live in a heap: \<open>arrays st ! r\<close> is the array at reference
  \<open>r\<close>, and \<open>slice()\<close> allocates the next reference.  A listener is a function, known by its
  identity.  Every call of \<open>subscribe\<close> creates one \<open>unsubscribe\<close> closure with its own
  \<open>listener\<close> and \<open>isSubscribed\<close>; \<open>subscriptions\<close> holds them in creation order, and the
  closure's position is the handle that \<open>subscribe\<close> returns.  \<open>calls\<close> records every
  listener invocation.  A reducer is a function of state and action that returns or
  throws; it does not reach into the store (while it runs, \<open>isDispatching\<close> makes
  \<open>getState\<close>, \<open>subscribe\<close>, \<open>unsubscribe\<close> and \<open>dispatch\<close> throw).
\<close>

type_synonym reducer = "val \<Rightarrow> val \<Rightarrow> error + val"

record store =
  currentReducer :: reducer
  currentState :: val
  currentListeners :: "nat option"
  nextListeners :: nat
  isDispatching :: bool
  arrays :: "nat list list"
  subscriptions :: "(nat \<times> bool) list"
  calls :: "nat list"

text \<open>
  \<open>obj[key]\<close> among the enumerable properties: own properties first, then the prototype
  chain.  The store reads \<open>action.type\<close> with it; the lookup that also finds the built-in
  members of \<open>Object.prototype\<close> is \<open>read\<close> below.
\<close>

fun get :: "object \<Rightarrow> string \<Rightarrow> val" where
  "get (Object i None ps) key = (case map_of ps key of Some v \<Rightarrow> v | None \<Rightarrow> Undefined)"
| "get (Object i (Some p) ps) key = (case map_of ps key of Some v \<Rightarrow> v | None \<Rightarrow> get p key)"

definition member :: "val \<Rightarrow> string \<Rightarrow> val" where
  "member v key = (case v of Ref ob \<Rightarrow> get ob key | _ \<Rightarrow> Undefined)"

text \<open>\<open>xs.indexOf(x)\<close> and \<open>xs.splice(start, 1)\<close>.\<close>

fun indexOf :: "'a list \<Rightarrow> 'a \<Rightarrow> int" where
  "indexOf [] x = - 1"
| "indexOf (y # ys) x =
     (if y = x then 0 else (let r = indexOf ys x in if r < 0 then - 1 else r + 1))"

definition splice1 :: "'a list \<Rightarrow> int \<Rightarrow> 'a list" where
  "splice1 xs start =
     (let len = int (length xs);
          s = (if start < 0 then max (len + start) 0 else min start len)
      in take (nat s) xs @ drop (nat s + 1) xs)"

definition ensureCanMutateNextListeners :: "store \<Rightarrow> store" where
  "ensureCanMutateNextListeners st =
     (if Some (nextListeners st) = currentListeners st
      then st\<lparr>arrays := arrays st @ [arrays st ! nextListeners st],
              nextListeners := length (arrays st)\<rparr>
      else st)"

definition getState :: "store \<Rightarrow> error + val" where
  "getState st =
     (if isDispatching st then Inl GetStateWhileDispatching else Inr (currentState st))"

definition subscribe :: "nat arg \<Rightarrow> store \<Rightarrow> (error + nat) \<times> store" where
  "subscribe listener st =
     (case listener of
        Value v \<Rightarrow> (Inl (ExpectedListenerFunction v), st)
      | Function l \<Rightarrow>
          if isDispatching st then (Inl SubscribeWhileDispatching, st)
          else
            (let st1 = ensureCanMutateNextListeners st;
                 st2 = st1\<lparr>arrays :=
                         (arrays st1)[nextListeners st1 := arrays st1 ! nextListeners st1 @ [l]]\<rparr>
             in (Inr (length (subscriptions st2)),
                 st2\<lparr>subscriptions := subscriptions st2 @ [(l, True)]\<rparr>)))"

text \<open>The \<open>unsubscribe\<close> closure at handle \<open>h\<close>.\<close>

definition unsubscribe :: "nat \<Rightarrow> store \<Rightarrow> (error + unit) \<times> store" where
  "unsubscribe h st =
     (let listener = fst (subscriptions st ! h);
          isSubscribed = snd (subscriptions st ! h)
      in if \<not> isSubscribed then (Inr (), st)
         else if isDispatching st then (Inl UnsubscribeWhileDispatching, st)
         else
           (let st1 = st\<lparr>subscriptions := (subscriptions st)[h := (listener, False)]\<rparr>;
                st2 = ensureCanMutateNextListeners st1;
                index = indexOf (arrays st2 ! nextListeners st2) listener;
                st3 = st2\<lparr>arrays :=
                        (arrays st2)[nextListeners st2 :=
                                       splice1 (arrays st2 ! nextListeners st2) index]\<rparr>
            in (Inr (), st3\<lparr>currentListeners := None\<rparr>)))"

text \<open>
  What a listener does when it is called: a script of calls into the store.  A script may
  read the state, subscribe a listener, call an \<open>unsubscribe\<close> closure, dispatch, or throw.
  \<open>CallUnsubscribe h\<close> calls the closure that the \<open>h\<close>-th call of \<open>subscribe\<close> returned;
  while no such closure exists the command does nothing.
\<close>

datatype command =
    CallGetState
  | CallSubscribe "nat arg"
  | CallUnsubscribe nat
  | CallDispatch val
  | Throw val

text \<open>
  \<open>dispatch\<close>, its loop over the listeners (\<open>notify\<close>, at index \<open>i\<close> of the array at
  reference \<open>listeners\<close>) and the body of a listener (\<open>run\<close>).  A listener may dispatch,
  so the three are mutually recursive and may not return: the first argument bounds the
  number of nested calls and iterations, and \<open>None\<close> means that it was used up.  An
  exception is \<open>Inl\<close>, with the store as the throw left it.
\<close>

fun dispatch :: "nat \<Rightarrow> (nat \<Rightarrow> command list) \<Rightarrow> val \<Rightarrow> store \<Rightarrow> ((error + val) \<times> store) option"
  and notify :: "nat \<Rightarrow> (nat \<Rightarrow> command list) \<Rightarrow> nat \<Rightarrow> nat \<Rightarrow> store \<Rightarrow> ((error + unit) \<times> store) option"
  and run :: "nat \<Rightarrow> (nat \<Rightarrow> command list) \<Rightarrow> command list \<Rightarrow> store \<Rightarrow> ((error + unit) \<times> store) option"
where
  "dispatch 0 env action st = None"
| "dispatch (Suc n) env action st =
     (if \<not> isPlainObject action then Some (Inl (ActionsMustBePlainObjects action), st)
      else if typeof (member action ''type'') = ''undefined'' then Some (Inl UndefinedActionType, st)
      else if isDispatching st then Some (Inl ReducersMayNotDispatch, st)
      else
        (let st1 = st\<lparr>isDispatching := True\<rparr> in
         case currentReducer st1 (currentState st1) action of
           Inl e \<Rightarrow> Some (Inl e, st1\<lparr>isDispatching := False\<rparr>)
         | Inr s \<Rightarrow>
             (let st2 = st1\<lparr>currentState := s\<rparr>;
                  st3 = st2\<lparr>isDispatching := False\<rparr>;
                  listeners = nextListeners st3;
                  st4 = st3\<lparr>currentListeners := Some listeners\<rparr>
              in case notify n env listeners 0 st4 of
                   None \<Rightarrow> None
                 | Some (Inl e, st') \<Rightarrow> Some (Inl e, st')
                 | Some (Inr u, st') \<Rightarrow> Some (Inr action, st'))))"
| "notify 0 env listeners i st = None"
| "notify (Suc n) env listeners i st =
     (if i < length (arrays st ! listeners) then
        (let listener = arrays st ! listeners ! i in
         case run n env (env listener) (st\<lparr>calls := calls st @ [listener]\<rparr>) of
           None \<Rightarrow> None
         | Some (Inl e, st') \<Rightarrow> Some (Inl e, st')
         | Some (Inr u, st') \<Rightarrow> notify n env listeners (i + 1) st')
      else Some (Inr (), st))"
| "run 0 env cmds st = None"
| "run (Suc n) env [] st = Some (Inr (), st)"
| "run (Suc n) env (c # cs) st =
     (case c of
        CallGetState \<Rightarrow>
          (case getState st of
             Inl e \<Rightarrow> Some (Inl e, st)
           | Inr v \<Rightarrow> run n env cs st)
      | CallSubscribe l \<Rightarrow>
          (case subscribe l st of
             (Inl e, st') \<Rightarrow> Some (Inl e, st')
           | (Inr h, st') \<Rightarrow> run n env cs st')
      | CallUnsubscribe h \<Rightarrow>
          (if h < length (subscriptions st) then
             (case unsubscribe h st of
                (Inl e, st') \<Rightarrow> Some (Inl e, st')
              | (Inr u, st') \<Rightarrow> run n env cs st')
           else run n env cs st)
      | CallDispatch a \<Rightarrow>
          (case dispatch n env a st of
             None \<Rightarrow> None
           | Some (Inl e, st') \<Rightarrow> Some (Inl e, st')
           | Some (Inr a', st') \<Rightarrow> run n env cs st')
      | Throw x \<Rightarrow> Some (Inl (Thrown x), st))"

text \<open>
  The same loop over a list of listeners fixed in advance: what the notification does if
  the array it iterates is frozen when the iteration begins.
\<close>

fun notify_snapshot ::
  "nat \<Rightarrow> (nat \<Rightarrow> command list) \<Rightarrow> nat list \<Rightarrow> store \<Rightarrow> ((error + unit) \<times> store) option" where
  "notify_snapshot 0 env ls st = None"
| "notify_snapshot (Suc n) env [] st = Some (Inr (), st)"
| "notify_snapshot (Suc n) env (listener # ls) st =
     (case run n env (env listener) (st\<lparr>calls := calls st @ [listener]\<rparr>) of
        None \<Rightarrow> None
      | Some (Inl e, st') \<Rightarrow> Some (Inl e, st')
      | Some (Inr u, st') \<Rightarrow> notify_snapshot n env ls st')"

text \<open>
  The reserved action types of \<open>utils/actionTypes\<close>, a file that is not among the sources:
  they are parameters.  \<open>PROBE_UNKNOWN_ACTION k\<close> is the string that the \<open>k\<close>-th call returns.
\<close>

record actionTypes =
  INIT :: string
  REPLACE :: string
  PROBE_UNKNOWN_ACTION :: "nat \<Rightarrow> string"

text \<open>
  \<open>createStore\<close> from line 374 on: what it does once no enhancer is present.  \<open>i\<close> is the
  identity of the object literal \<^verbatim>\<open>{ type: ActionTypes.INIT }\<close>.
\<close>

definition createStore_plain ::
  "nat \<Rightarrow> (nat \<Rightarrow> command list) \<Rightarrow> 'x actionTypes_scheme \<Rightarrow> nat \<Rightarrow> reducer arg \<Rightarrow> val \<Rightarrow>
     (error + store) option" where
  "createStore_plain n env types i reducer preloadedState =
     (case reducer of
        Value v \<Rightarrow> Some (Inl (ExpectedReducerFunction v))
      | Function r \<Rightarrow>
          (let st = \<lparr>currentReducer = r, currentState = preloadedState,
                     currentListeners = Some 0, nextListeners = 0, isDispatching = False,
                     arrays = [[]], subscriptions = [], calls = []\<rparr>
           in case dispatch n env (Ref (object_literal i [(''type'', Str (INIT types))])) st of
                None \<Rightarrow> None
              | Some (Inl e, st') \<Rightarrow> Some (Inl e)
              | Some (Inr a, st') \<Rightarrow> Some (Inr st')))"

text \<open>
  An enhancer receives a store creator of the signature \<open>StoreEnhancerStoreCreator\<close>
  (reducer and preloaded state) and returns one.
\<close>

type_synonym storeCreator = "reducer arg \<Rightarrow> val \<Rightarrow> (error + store) option"

type_synonym enhancer = "storeCreator \<Rightarrow> storeCreator"

fun is_function :: "'f arg \<Rightarrow> bool" where
  "is_function (Function f) = True"
| "is_function (Value v) = False"

fun is_undefined :: "'f arg \<Rightarrow> bool" where
  "is_undefined (Function f) = False"
| "is_undefined (Value v) = (typeof v = ''undefined'')"

fun value_of :: "'f arg \<Rightarrow> val" where
  "value_of (Value v) = v"
| "value_of (Function f) = Undefined"

text \<open>
  \<open>createStore(reducer, preloadedState, enhancer)\<close> with \<open>arguments[3]\<close>.  Where the
  preloaded state is passed on it is never a function (a function there was either
  rejected or shifted into \<open>enhancer\<close>), so \<open>value_of\<close> reads it.
\<close>

definition createStore ::
  "nat \<Rightarrow> (nat \<Rightarrow> command list) \<Rightarrow> 'x actionTypes_scheme \<Rightarrow> nat \<Rightarrow>
     reducer arg \<Rightarrow> enhancer arg \<Rightarrow> enhancer arg \<Rightarrow> enhancer arg \<Rightarrow> (error + store) option" where
  "createStore n env types i reducer preloadedState enhancer arguments3 =
     (if (is_function preloadedState \<and> is_function enhancer) \<or>
         (is_function enhancer \<and> is_function arguments3)
      then Some (Inl SeveralEnhancers)
      else
        (let shift = (is_function preloadedState \<and> is_undefined enhancer);
             enhancer' = (if shift then preloadedState else enhancer);
             preloadedState' = (if shift then Value Undefined else preloadedState)
         in if \<not> is_undefined enhancer' then
              (case enhancer' of
                 Value v \<Rightarrow> Some (Inl (ExpectedEnhancerFunction v))
               | Function e \<Rightarrow>
                   e (createStore_plain n env types i) reducer (value_of preloadedState'))
            else createStore_plain n env types i reducer (value_of preloadedState')))"

section \<open>combineReducers\<close>

text \<open>
  What \<open>state[key]\<close> can be for a combined state: a value, or a built-in function that the
  lookup finds on \<open>Object.prototype\<close> (\<open>Member ''toString''\<close> is
  \<open>Object.prototype.toString\<close>).  A slice reducer receives such a slice and returns one.
\<close>

datatype slice = Data val | Member string

fun slice_typeof :: "slice \<Rightarrow> string" where
  "slice_typeof (Data v) = typeof v"
| "slice_typeof (Member m) = ''function''"

text \<open>\<open>a === b\<close> on slices; a built-in function is identical to itself only.\<close>

fun slice_eq :: "slice \<Rightarrow> slice \<Rightarrow> bool" where
  "slice_eq (Data a) (Data b) = strict_eq a b"
| "slice_eq (Member a) (Member b) = (a = b)"
| "slice_eq _ _ = False"

fun slice_truthy :: "slice \<Rightarrow> bool" where
  "slice_truthy (Data v) = truthy v"
| "slice_truthy (Member m) = True"

type_synonym sliceReducer = "slice \<Rightarrow> val \<Rightarrow> error + slice"

text \<open>
  A combined state: an object with its identity, its prototype and its own enumerable
  properties in enumeration order (distinct keys), which hold slices.  Properties that are
  not enumerable are modelled for \<open>Object.prototype\<close> only.
\<close>

datatype combined_state =
  CombinedState (state_ident: nat) (state_proto: "object option")
    (state_props: "(string \<times> slice) list")

text \<open>
  The properties of \<open>Object.prototype\<close> that are not enumerable: the functions below and
  the accessor \<open>__proto__\<close>, whose getter returns the prototype of the object that is read.
  \<open>builtin_member p key\<close> is what a lookup that has arrived at \<open>Object.prototype\<close> finds
  there, \<open>p\<close> being the prototype of the object that is read.
\<close>

definition object_prototype_functions :: "string list" where
  "object_prototype_functions =
     [''constructor'', ''__defineGetter__'', ''__defineSetter__'', ''hasOwnProperty'',
      ''__lookupGetter__'', ''__lookupSetter__'', ''isPrototypeOf'', ''propertyIsEnumerable'',
      ''toString'', ''valueOf'', ''toLocaleString'']"

definition builtin_member :: "val \<Rightarrow> string \<Rightarrow> slice" where
  "builtin_member p key =
     (if key = ''__proto__'' then Data p
      else if key \<in> set object_prototype_functions then Member key
      else Data Undefined)"

text \<open>
  The lookup of \<open>key\<close> along a prototype chain: the enumerable properties of each link,
  then, at the end of a chain that ends in \<open>Object.prototype\<close>, its built-in members.
\<close>

fun inherited :: "object \<Rightarrow> val \<Rightarrow> string \<Rightarrow> slice" where
  "inherited (Object i None ps) p key =
     (case map_of ps key of
        Some v \<Rightarrow> Data v
      | None \<Rightarrow> if i = ident ObjectPrototype then builtin_member p key else Data Undefined)"
| "inherited (Object i (Some q) ps) p key =
     (case map_of ps key of Some v \<Rightarrow> Data v | None \<Rightarrow> inherited q p key)"

text \<open>\<open>state[key]\<close>: own properties first, then the prototype chain.\<close>

definition read :: "combined_state \<Rightarrow> string \<Rightarrow> slice" where
  "read state key =
     (case map_of (state_props state) key of
        Some s \<Rightarrow> s
      | None \<Rightarrow>
          (case state_proto state of
             None \<Rightarrow>
               if state_ident state = ident ObjectPrototype then builtin_member Null key
               else Data Undefined
           | Some q \<Rightarrow> inherited q (Ref q) key))"

text \<open>
  The actions that \<open>assertReducerShape\<close> builds; \<open>i\<close> is the identity of the object literal.
\<close>

definition init_action :: "'x actionTypes_scheme \<Rightarrow> nat \<Rightarrow> val" where
  "init_action types i = Ref (object_literal i [(''type'', Str (INIT types))])"

definition probe_action :: "'x actionTypes_scheme \<Rightarrow> nat \<Rightarrow> nat \<Rightarrow> val" where
  "probe_action types i k = Ref (object_literal i [(''type'', Str (PROBE_UNKNOWN_ACTION types k))])"

text \<open>
  \<open>assertReducerShape\<close>: the \<open>forEach\<close> over the slice reducers, in key order.  \<open>i\<close> is
  the identity of the next object literal and \<open>k\<close> the number of earlier calls of
  \<open>PROBE_UNKNOWN_ACTION\<close>.  \<open>Inl\<close> is the exception that ends it: one of the two errors
  thrown here, or whatever a slice reducer threw.
\<close>

fun assertReducerShape ::
  "'x actionTypes_scheme \<Rightarrow> nat \<Rightarrow> nat \<Rightarrow> (string \<times> sliceReducer) list \<Rightarrow> error + unit" where
  "assertReducerShape types i k [] = Inr ()"
| "assertReducerShape types i k ((key, reducer) # rest) =
     (case reducer (Data Undefined) (init_action types i) of
        Inl e \<Rightarrow> Inl e
      | Inr initialState \<Rightarrow>
          if slice_typeof initialState = ''undefined'' then Inl (InitReturnedUndefined key)
          else
            (case reducer (Data Undefined) (probe_action types (i + 1) k) of
               Inl e \<Rightarrow> Inl e
             | Inr probed \<Rightarrow>
                 if slice_typeof probed = ''undefined'' then Inl (ProbeReturnedUndefined key)
                 else assertReducerShape types (i + 2) (k + 1) rest))"

text \<open>
  The loop of lines 127 to 140 over \<open>Object.keys(reducers)\<close>:
  \<open>finalReducers[key] = reducers[key]\<close> for the entries that are functions.  (The warning
  for an undefined entry goes to the console only.)
\<close>

fun keep_functions ::
  "(string \<times> 'f arg) list \<Rightarrow> 'f function_map \<Rightarrow> error + 'f function_map" where
  "keep_functions [] finalReducers = Inr finalReducers"
| "keep_functions ((key, r) # rest) finalReducers =
     (case r of
        Function f \<Rightarrow>
          (case set_function finalReducers key f of
             Inl e \<Rightarrow> Inl e
           | Inr assigned \<Rightarrow> keep_functions rest assigned)
      | Value v \<Rightarrow> keep_functions rest finalReducers)"

text \<open>
  What the closure \<open>combination\<close> captures.  It reads \<open>finalReducers\<close> through its own
  properties and through the method \<open>hasOwnProperty\<close> only, so the closure holds the own
  properties; \<open>finalReducerKeys\<close> is their key list.  No key is \<open>__proto__\<close>, as the loop
  above never defines that property.  \<open>shapeAssertionError\<close> is \<open>None\<close> while the variable
  is unassigned.
\<close>

record combined =
  finalReducers :: "(string \<times> sliceReducer) list"
  shapeAssertionError :: "error option"

definition combineReducers ::
  "'x actionTypes_scheme \<Rightarrow> nat \<Rightarrow> nat \<Rightarrow> (string \<times> sliceReducer arg) list \<Rightarrow> error + combined" where
  "combineReducers types i k reducers =
     (case keep_functions reducers (FunctionMap None []) of
        Inl e \<Rightarrow> Inl e
      | Inr kept \<Rightarrow>
          Inr \<lparr>finalReducers = entries kept,
               shapeAssertionError =
                 (case assertReducerShape types i k (entries kept) of
                    Inl e \<Rightarrow> Some e
                  | Inr u \<Rightarrow> None)\<rparr>)"

text \<open>
  \<open>reducers.hasOwnProperty(key)\<close> in \<open>getUnexpectedStateShapeWarningMessage\<close>, where
  \<open>reducers\<close> is \<open>finalReducers\<close>: a slice reducer under the key \<open>hasOwnProperty\<close> is what
  the property lookup finds, and it is called with the key as its state and no action;
  otherwise the built-in method answers.
\<close>

definition hasOwnProperty :: "(string \<times> sliceReducer) list \<Rightarrow> string \<Rightarrow> error + bool" where
  "hasOwnProperty reducers key =
     (case map_of reducers ''hasOwnProperty'' of
        Some reducer \<Rightarrow>
          (case reducer (Data (Str key)) Undefined of
             Inl e \<Rightarrow> Inl e
           | Inr answer \<Rightarrow> Inr (slice_truthy answer))
      | None \<Rightarrow> Inr (key \<in> set (map fst reducers)))"

text \<open>
  The \<open>filter\<close> of line 43 over the keys of the state.  Of
  \<open>getUnexpectedStateShapeWarningMessage\<close> and the warning (lines 170 to 180) the model
  keeps what can end the call of the combined reducer, an exception of that \<open>filter\<close>:
  the message goes to the console, the cache of reported keys is read here only (the
  result lists the keys before the cache removes those already reported), and \<open>kindOf\<close>
  and \<open>warning\<close>, whose modules are not among the sources, are taken to return.
\<close>

fun unexpected_keys ::
  "(string \<times> sliceReducer) list \<Rightarrow> string list \<Rightarrow> error + string list" where
  "unexpected_keys reducers [] = Inr []"
| "unexpected_keys reducers (key # keys) =
     (case hasOwnProperty reducers key of
        Inl e \<Rightarrow> Inl e
      | Inr own \<Rightarrow>
          (case unexpected_keys reducers keys of
             Inl e \<Rightarrow> Inl e
           | Inr found \<Rightarrow> Inr (if own then found else key # found)))"

text \<open>
  Lines 170 to 180: nothing in production; otherwise the early returns of lines 27 and 34,
  then the \<open>filter\<close>.
\<close>

definition state_shape_warning :: "bool \<Rightarrow> combined \<Rightarrow> combined_state \<Rightarrow> error + unit" where
  "state_shape_warning production c state =
     (if production then Inr ()
      else if length (finalReducers c) = 0 then Inr ()
      else if \<not> isPlainObject (Ref (Object (state_ident state) (state_proto state) [])) then Inr ()
      else
        (case unexpected_keys (finalReducers c) (map fst (state_props state)) of
           Inl e \<Rightarrow> Inl e
         | Inr found \<Rightarrow> Inr ()))"

text \<open>
  The loop of lines 189 to 206 over the slice reducers, with the running \<open>hasChanged\<close> and
  \<open>nextState\<close>.  The keys are those of \<open>finalReducers\<close>, none of them \<open>__proto__\<close>, so
  every write \<open>nextState[key] = nextStateForKey\<close> defines or overwrites an own property.
\<close>

fun slices ::
  "(string \<times> sliceReducer) list \<Rightarrow> combined_state \<Rightarrow> val \<Rightarrow> bool \<Rightarrow> (string \<times> slice) list \<Rightarrow>
     error + bool \<times> (string \<times> slice) list" where
  "slices [] state action hasChanged nextState = Inr (hasChanged, nextState)"
| "slices ((key, reducer) # rest) state action hasChanged nextState =
     (let previousStateForKey = read state key in
      case reducer previousStateForKey action of
        Inl e \<Rightarrow> Inl e
      | Inr nextStateForKey \<Rightarrow>
          if slice_typeof nextStateForKey = ''undefined'' then
            Inl (SliceReturnedUndefined key
                   (if truthy action then member action ''type'' else action))
          else
            slices rest state action
              (hasChanged \<or> \<not> slice_eq nextStateForKey previousStateForKey)
              (put_own nextState key nextStateForKey))"

text \<open>Lines 182 to 210; \<open>fresh\<close> is the identity of the object literal \<open>nextState\<close>.\<close>

definition combine_slices ::
  "combined \<Rightarrow> combined_state \<Rightarrow> nat \<Rightarrow> val \<Rightarrow> error + combined_state" where
  "combine_slices c state fresh action =
     (case slices (finalReducers c) state action False [] of
        Inl e \<Rightarrow> Inl e
      | Inr (hasChanged, nextState) \<Rightarrow>
          if hasChanged \<or> length (finalReducers c) \<noteq> length (state_props state)
          then Inr (CombinedState fresh (Some ObjectPrototype) nextState)
          else Inr state)"

text \<open>Lines 170 to 210, what follows the test of the captured error.\<close>

definition combination_body ::
  "bool \<Rightarrow> combined \<Rightarrow> combined_state \<Rightarrow> nat \<Rightarrow> val \<Rightarrow> error + combined_state" where
  "combination_body production c state fresh action =
     (case state_shape_warning production c state of
        Inl e \<Rightarrow> Inl e
      | Inr u \<Rightarrow> combine_slices c state fresh action)"

text \<open>
  The combined reducer.  \<open>production\<close> tells whether \<open>process.env.NODE_ENV\<close> is
  \<open>'production'\<close>.  The state parameter is an object or, as \<open>None\<close>, undefined, for which
  the default \<^verbatim>\<open>{}\<close> is built first; \<open>i\<close> is the identity of the next object literal.
\<close>

definition combination ::
  "bool \<Rightarrow> combined \<Rightarrow> nat \<Rightarrow> combined_state option \<Rightarrow> val \<Rightarrow> error + combined_state" where
  "combination production c i state action =
     (let given = (case state of None \<Rightarrow> CombinedState i (Some ObjectPrototype) [] | Some s \<Rightarrow> s);
          fresh = (case state of None \<Rightarrow> i + 1 | Some s \<Rightarrow> i)
      in case shapeAssertionError c of
           Some e \<Rightarrow>
             if truthy_error e then Inl e else combination_body production c given fresh action
         | None \<Rightarrow> combination_body production c given fresh action)"

section \<open>Notions used in the statements\<close>


text \<open>
  The store as it is while a dispatch iterates the array at reference \<open>r\<close>: the
  reference is allocated, and \<open>nextListeners\<close> may be \<open>r\<close> only as long as
  \<open>currentListeners\<close> is \<open>r\<close> too (so that \<open>ensureCanMutateNextListeners\<close> copies
  before a write).
\<close>

definition frozen :: "nat \<Rightarrow> store \<Rightarrow> bool" where
  "frozen r st \<longleftrightarrow>
     r < length (arrays st) \<and> nextListeners st < length (arrays st) \<and>
     (nextListeners st = r \<longrightarrow> currentListeners st = Some r)"

text \<open>The store when the iteration of a dispatch begins: the reducer returned \<open>s\<close>,
  the flag is cleared and the pending array is adopted.\<close>

definition commit :: "store \<Rightarrow> val \<Rightarrow> store" where
  "commit st s = st\<lparr>currentState := s, isDispatching := False,
                     currentListeners := Some (nextListeners st)\<rparr>"

text \<open>A listener command that returns normally and neither dispatches nor throws.\<close>

fun quiet_command :: "command \<Rightarrow> bool" where
  "quiet_command CallGetState = True"
| "quiet_command (CallSubscribe (Function l)) = True"
| "quiet_command (CallSubscribe (Value v)) = False"
| "quiet_command (CallUnsubscribe h) = True"
| "quiet_command (CallDispatch a) = False"
| "quiet_command (Throw x) = False"

definition unchanged_state :: "store \<Rightarrow> store \<Rightarrow> bool" where
  "unchanged_state st st' \<longleftrightarrow>
     calls st' = calls st \<and> currentState st' = currentState st \<and>
     isDispatching st' = isDispatching st \<and> currentReducer st' = currentReducer st"

text \<open>What a slice reducer returns for its slice of a state, and two conditions on all of
  them: each returns a defined value, each returns its input slice (by \<open>===\<close>).\<close>

definition slice_result :: "sliceReducer \<Rightarrow> combined_state \<Rightarrow> string \<Rightarrow> val \<Rightarrow> slice" where
  "slice_result r state key action =
     (case r (read state key) action of Inr v \<Rightarrow> v | Inl e \<Rightarrow> Data Undefined)"

definition returns_defined :: "(string \<times> sliceReducer) list \<Rightarrow> combined_state \<Rightarrow> val \<Rightarrow> bool" where
  "returns_defined rs state action =
     list_all (\<lambda>(key, r). case r (read state key) action of
                              Inr v \<Rightarrow> slice_typeof v \<noteq> ''undefined''
                            | Inl e \<Rightarrow> False) rs"

definition slices_unchanged :: "(string \<times> sliceReducer) list \<Rightarrow> combined_state \<Rightarrow> val \<Rightarrow> bool" where
  "slices_unchanged rs state action =
     list_all (\<lambda>(key, r). case r (read state key) action of
                              Inr v \<Rightarrow> slice_eq v (read state key)
                            | Inl e \<Rightarrow> False) rs"


text \<open>No captured error is rethrown: none was captured, or a falsy value was.\<close>

definition no_rethrow :: "combined \<Rightarrow> bool" where
  "no_rethrow c = (case shapeAssertionError c of Some e \<Rightarrow> \<not> truthy_error e | None \<Rightarrow> True)"

text \<open>
  The probing of \<open>assertReducerShape\<close>, seen from the slice reducer at position \<open>j\<close> of
  \<open>rs\<close>: its call with an undefined state and the INIT action, and its call with an
  undefined state and a probe action.  The identities of the two action literals and
  the count of the probe type are those that \<open>assertReducerShape types i k rs\<close> uses when
  it arrives at position \<open>j\<close>.
\<close>

definition init_call ::
  "'x actionTypes_scheme \<Rightarrow> nat \<Rightarrow> (string \<times> sliceReducer) list \<Rightarrow> nat \<Rightarrow> error + slice" where
  "init_call types i rs j = snd (rs ! j) (Data Undefined) (init_action types (i + 2 * j))"

definition probe_call ::
  "'x actionTypes_scheme \<Rightarrow> nat \<Rightarrow> nat \<Rightarrow> (string \<times> sliceReducer) list \<Rightarrow> nat \<Rightarrow> error + slice" where
  "probe_call types i k rs j =
     snd (rs ! j) (Data Undefined) (probe_action types (i + 2 * j + 1) (k + j))"





section \<open>Example programs\<close>

definition example_types :: actionTypes where
  "example_types =
     \<lparr>INIT = ''@@redux/INIT'', REPLACE = ''@@redux/REPLACE'',
      PROBE_UNKNOWN_ACTION = (\<lambda>k. ''@@redux/PROBE_UNKNOWN_ACTION'')\<rparr>"

definition action_of :: "nat \<Rightarrow> string \<Rightarrow> val" where
  "action_of i t = Ref (object_literal i [(''type'', Str t)])"

definition counter :: reducer where
  "counter state action =
     (let n = (case state of Num k \<Rightarrow> k | _ \<Rightarrow> 0) in
      if member action ''type'' = Str ''+'' then Inr (Num (n + 1))
      else if member action ''type'' = Str ''-'' then Inr (Num (n - 1))
      else Inr (Num n))"

definition toggle :: reducer where
  "toggle state action =
     (let b = (case state of Bool b \<Rightarrow> b | _ \<Rightarrow> False) in
      if member action ''type'' = Str ''TOGGLE'' then Inr (Bool (\<not> b)) else Inr (Bool b))"

text \<open>A reducer that returns its input on \<open>X\<close>, also when the input is undefined.\<close>

definition idle :: reducer where
  "idle state action =
     (if member action ''type'' = Str ''X'' then Inr state
      else Inr (case state of Undefined \<Rightarrow> Num 0 | _ \<Rightarrow> state))"

definition echo_state :: reducer where
  "echo_state state action = Inr state"

definition failing :: reducer where
  "failing state action = Inl (Thrown (Str ''boom''))"

text \<open>
  A reducer of values as a slice reducer: it returns a built-in function, which it
  cannot inspect, as it is.
\<close>

definition as_slice :: "reducer \<Rightarrow> sliceReducer" where
  "as_slice r state action =
     (case state of
        Data v \<Rightarrow> (case r v action of Inl e \<Rightarrow> Inl e | Inr w \<Rightarrow> Inr (Data w))
      | Member m \<Rightarrow> Inr (Member m))"

text \<open>A reducer that throws the falsy value 0 when its state is undefined.\<close>

definition throw0 :: reducer where
  "throw0 state action = (if state = Undefined then Inl (Thrown (Num 0)) else Inr state)"

text \<open>A reducer that throws when its state is a string.\<close>

definition picky :: reducer where
  "picky state action =
     (case state of
        Str s \<Rightarrow> Inl (Thrown (Str ''no strings''))
      | Undefined \<Rightarrow> Inr (Num 0)
      | _ \<Rightarrow> Inr state)"

text \<open>The state \<^verbatim>\<open>{...}\<close> written as an object literal.\<close>

definition state_literal :: "nat \<Rightarrow> (string \<times> val) list \<Rightarrow> combined_state" where
  "state_literal i ps = CombinedState i (Some ObjectPrototype) (map (\<lambda>(k, v). (k, Data v)) ps)"

text \<open>
  A store with the listeners 5 and 6 subscribed.  Listener 5 unsubscribes itself,
  subscribes listener 7 and dispatches \<open>-\<close>; listener 6 reads the state.
\<close>

definition example_store :: store where
  "example_store =
     \<lparr>currentReducer = counter, currentState = Num 0, currentListeners = Some 0,
      nextListeners = 0, isDispatching = False, arrays = [[5, 6]],
      subscriptions = [(5, True), (6, True)], calls = []\<rparr>"

definition example_listeners :: "nat \<Rightarrow> command list" where
  "example_listeners l =
     (if l = 5 then [CallUnsubscribe 0, CallSubscribe (Function 7), CallDispatch (action_of 21 ''-'')]
      else if l = 6 then [CallGetState]
      else [])"

definition quiet_listeners :: "nat \<Rightarrow> command list" where
  "quiet_listeners l =
     (if l = 5 then [CallUnsubscribe 0, CallSubscribe (Function 7)]
      else if l = 6 then [CallGetState]
      else [])"

text \<open>An enhancer that replaces the preloaded state by 41.\<close>

definition preload41 :: enhancer where
  "preload41 creator = (\<lambda>reducer preloadedState. creator reducer (Num 41))"

section \<open>Properties of the plain-object predicate\<close>

lemma chain_not_Nil: "chain ob \<noteq> []"
  by (cases ob rule: chain.cases) auto

lemma proto_walk_last: "proto_walk ob = last (chain ob)"
  by (induction ob rule: proto_walk.induct) (simp_all add: chain_not_Nil)

lemma chain_Some: "proto ob = Some p \<Longrightarrow> chain ob = ob # chain p"
  by (cases ob rule: chain.cases) auto

lemma isPlainObject_Ref:
  "isPlainObject (Ref ob) = (\<exists>p. proto ob = Some p \<and> ident p = ident (last (chain ob)))"
  by (cases "proto ob") (simp_all add: isPlainObject_def getPrototypeOf_def proto_walk_last)

lemma deep_chain_not_plain:
  assumes "proto ob = Some p" and "proto p = Some q" and "distinct (map ident (chain ob))"
  shows "\<not> isPlainObject (Ref ob)"
proof -
  have c: "chain ob = ob # p # chain q"
    using assms(1,2) by (simp add: chain_Some)
  have "last (chain ob) = last (chain q)"
    using c chain_not_Nil [of q] by simp
  moreover have "last (chain q) \<in> set (chain q)"
    using chain_not_Nil [of q] by simp
  moreover have "ident p \<notin> ident ` set (chain q)"
    using assms(3) c by simp
  ultimately have "ident p \<noteq> ident (last (chain ob))"
    by (metis imageI)
  then show ?thesis
    using assms(1) by (simp add: isPlainObject_Ref)
qed

text \<open>
  C10.  \<open>isPlainObject v\<close> holds exactly when \<open>v\<close> is an object (not null, not a
  primitive) whose immediate prototype is, by identity, the last link of its prototype
  chain, the one whose own prototype is null.  Consequently it is false for null and for
  primitives, for an object with a null prototype (the loop ends at the object itself, and
  its prototype is null), for arrays and for every object whose chain has more than one
  link above it (class instances); an object literal is plain.
\<close>

theorem isPlainObject_characterisation:
  "(isPlainObject v \<longleftrightarrow>
      (\<exists>ob p. v = Ref ob \<and> proto ob = Some p \<and> ident p = ident (last (chain ob))))
   \<and> \<not> isPlainObject Null \<and> \<not> isPlainObject Undefined \<and> \<not> isPlainObject (Bool b)
   \<and> \<not> isPlainObject (Num n) \<and> \<not> isPlainObject (Str s)
   \<and> \<not> isPlainObject (Ref (Object i None ps))
   \<and> getPrototypeOf (Object i None ps) = Null
   \<and> proto_walk (Object i None ps) = Object i None ps
   \<and> \<not> isPlainObject (Ref (array_object i ps))
   \<and> (proto ob' = Some p' \<and> proto p' = Some q' \<and> distinct (map ident (chain ob'))
        \<longrightarrow> \<not> isPlainObject (Ref ob'))
   \<and> isPlainObject (Ref (object_literal i ps))"
proof -
  have main: "isPlainObject v \<longleftrightarrow>
      (\<exists>ob p. v = Ref ob \<and> proto ob = Some p \<and> ident p = ident (last (chain ob)))"
  proof (cases v)
    case (Ref ob)
    then show ?thesis by (simp add: isPlainObject_Ref)
  qed (simp_all add: isPlainObject_def)
  have prims: "\<not> isPlainObject Null" "\<not> isPlainObject Undefined" "\<not> isPlainObject (Bool b)"
    "\<not> isPlainObject (Num n)" "\<not> isPlainObject (Str s)"
    by (simp_all add: isPlainObject_def)
  have nullproto: "\<not> isPlainObject (Ref (Object i None ps))"
    by (simp add: isPlainObject_Ref)
  have arr: "\<not> isPlainObject (Ref (array_object i ps))"
    by (simp add: isPlainObject_Ref array_object_def ArrayPrototype_def ObjectPrototype_def)
  have lit: "isPlainObject (Ref (object_literal i ps))"
    by (simp add: isPlainObject_Ref object_literal_def ObjectPrototype_def)
  have terminal: "getPrototypeOf (Object i None ps) = Null"
    "proto_walk (Object i None ps) = Object i None ps"
    by (simp_all add: getPrototypeOf_def)
  show ?thesis
    using main prims nullproto terminal arr lit deep_chain_not_plain by blast
qed

text \<open>An instance of a class: its prototype is the class's prototype object (identity 7),
  whose prototype is the root.\<close>

theorem isPlainObject_characterisation_witness:
  "proto (Object 9 (Some (Object 7 (Some ObjectPrototype) [])) []) =
      Some (Object 7 (Some ObjectPrototype) [])
   \<and> proto (Object 7 (Some ObjectPrototype) []) = Some ObjectPrototype
   \<and> distinct (map ident (chain (Object 9 (Some (Object 7 (Some ObjectPrototype) [])) [])))
   \<and> \<not> isPlainObject (Ref (Object 9 (Some (Object 7 (Some ObjectPrototype) [])) []))
   \<and> isPlainObject (Ref (object_literal 3 [(''type'', Str ''x'')]))
   \<and> \<not> isPlainObject (Ref (Object 4 None []))"
  using isPlainObject_characterisation
    [of Undefined True 0 "[]" 3 "[(''type'', Str ''x'')]"
        "Object 9 (Some (Object 7 (Some ObjectPrototype) [])) []"
        "Object 7 (Some ObjectPrototype) []" ObjectPrototype]
    isPlainObject_characterisation
    [of Undefined True 0 "[]" 4 "[]"
        "Object 9 (Some (Object 7 (Some ObjectPrototype) [])) []"
        "Object 7 (Some ObjectPrototype) []" ObjectPrototype]
  by (simp add: ObjectPrototype_def)

section \<open>Properties of compose\<close>

lemma call_foldl_ComposeArrow:
  "call (foldl (\<lambda>a b. ComposeArrow a b) a rest) x =
     (case right_to_left rest x of Inl e \<Rightarrow> Inl e | Inr y \<Rightarrow> call a y)"
proof (induction rest arbitrary: a)
  case Nil
  show ?case by (simp add: right_to_left_def)
next
  case (Cons b rest)
  show ?case
    by (simp add: Cons.IH) (simp add: right_to_left_def split: sum.splits)
qed

lemma call_compose: "call (compose fs) x = right_to_left fs x"
proof (cases fs)
  case Nil
  then show ?thesis by (simp add: compose_def right_to_left_def)
next
  case (Cons f rest)
  show ?thesis
  proof (cases rest)
    case Nil
    with Cons show ?thesis by (simp add: compose_def right_to_left_def)
  next
    case (Cons g rest')
    have "compose fs = foldl (\<lambda>a b. ComposeArrow a b) f rest"
      using \<open>fs = f # rest\<close> Cons by (simp add: compose_def)
    then show ?thesis
      using \<open>fs = f # rest\<close>
      by (simp add: call_foldl_ComposeArrow) (simp add: right_to_left_def)
  qed
qed

text \<open>
  C7.  \<open>compose()\<close> applied to \<open>x\<close> returns \<open>x\<close>; \<open>compose(f)\<close> is \<open>f\<close> itself, not an
  arrow around it; \<open>compose(f, g, h)(x)\<close> is \<open>f(g(h(x)))\<close>, and in general the functions
  are applied from right to left.
\<close>

theorem compose_laws:
  "call (compose []) x = Inr x
   \<and> compose [f] = f
   \<and> call (compose [f, g, h]) x =
       (case call h x of
          Inl e \<Rightarrow> Inl e
        | Inr y \<Rightarrow> (case call g y of Inl e \<Rightarrow> Inl e | Inr z \<Rightarrow> call f z))
   \<and> call (compose [Given (\<lambda>v. Inr (f' v)), Given (\<lambda>v. Inr (g' v)), Given (\<lambda>v. Inr (h' v))]) x
       = Inr (f' (g' (h' x)))
   \<and> call (compose fs) x = right_to_left fs x"
proof -
  have one: "compose [f] = f" by (simp add: compose_def)
  have none: "call (compose []) x = Inr x" by (simp add: compose_def)
  have three: "call (compose [f, g, h]) x =
       (case call h x of
          Inl e \<Rightarrow> Inl e
        | Inr y \<Rightarrow> (case call g y of Inl e \<Rightarrow> Inl e | Inr z \<Rightarrow> call f z))"
    by (simp add: compose_def split: sum.splits)
  have pure: "call (compose [Given (\<lambda>v. Inr (f' v)), Given (\<lambda>v. Inr (g' v)), Given (\<lambda>v. Inr (h' v))]) x
       = Inr (f' (g' (h' x)))"
    by (simp add: compose_def)
  show ?thesis
    by (intro conjI one none three pure call_compose)
qed

section \<open>Properties of bindActionCreators\<close>









section \<open>The listener arrays during a dispatch\<close>

lemma ensure_frozen:
  assumes "frozen r st"
  shows "frozen r (ensureCanMutateNextListeners st)"
    and "arrays (ensureCanMutateNextListeners st) ! r = arrays st ! r"
    and "nextListeners (ensureCanMutateNextListeners st) \<noteq> r"
    and "nextListeners (ensureCanMutateNextListeners st) < length (arrays (ensureCanMutateNextListeners st))"
    and "r < length (arrays (ensureCanMutateNextListeners st))"
  using assms by (auto simp: frozen_def ensureCanMutateNextListeners_def nth_append)

lemma ensure_fields [simp]:
  "subscriptions (ensureCanMutateNextListeners st) = subscriptions st"
  "calls (ensureCanMutateNextListeners st) = calls st"
  "currentState (ensureCanMutateNextListeners st) = currentState st"
  "currentReducer (ensureCanMutateNextListeners st) = currentReducer st"
  "isDispatching (ensureCanMutateNextListeners st) = isDispatching st"
  by (simp_all add: ensureCanMutateNextListeners_def)

lemma subscribe_frozen:
  assumes "frozen r st" and "subscribe l st = (res, st')"
  shows "frozen r st' \<and> arrays st' ! r = arrays st ! r"
proof (cases l)
  case (Value v)
  with assms show ?thesis by (simp add: subscribe_def)
next
  case (Function f)
  show ?thesis
  proof (cases "isDispatching st")
    case True
    with assms Function show ?thesis by (simp add: subscribe_def)
  next
    case False
    let ?e = "ensureCanMutateNextListeners st"
    have st': "st' = ?e\<lparr>arrays := (arrays ?e)[nextListeners ?e := arrays ?e ! nextListeners ?e @ [f]],
                       subscriptions := subscriptions ?e @ [(f, True)]\<rparr>"
      using assms(2) Function False by (simp add: subscribe_def Let_def)
    show ?thesis
      using ensure_frozen [OF assms(1)] unfolding st' frozen_def by simp
  qed
qed

lemma unsubscribe_frozen:
  assumes "frozen r st" and "unsubscribe h st = (res, st')"
  shows "frozen r st' \<and> arrays st' ! r = arrays st ! r"
proof (cases "snd (subscriptions st ! h) \<and> \<not> isDispatching st")
  case False
  with assms show ?thesis by (auto simp: unsubscribe_def Let_def split: if_splits)
next
  case True
  let ?s1 = "st\<lparr>subscriptions := (subscriptions st)[h := (fst (subscriptions st ! h), False)]\<rparr>"
  let ?e = "ensureCanMutateNextListeners ?s1"
  have f1: "frozen r ?s1" using assms(1) by (simp add: frozen_def)
  have a1: "arrays ?s1 = arrays st" by simp
  have st': "st' = ?e\<lparr>arrays := (arrays ?e)[nextListeners ?e :=
                 splice1 (arrays ?e ! nextListeners ?e)
                   (indexOf (arrays ?e ! nextListeners ?e) (fst (subscriptions st ! h)))],
               currentListeners := None\<rparr>"
    using assms(2) True by (simp add: unsubscribe_def Let_def)
  show ?thesis
    using ensure_frozen [OF f1] a1 unfolding st' frozen_def by simp
qed

lemma frozen_calls [simp]: "frozen r (st\<lparr>calls := c\<rparr>) = frozen r st"
  by (simp add: frozen_def)

lemma dispatch_Suc:
  assumes "isPlainObject a" and "typeof (member a ''type'') \<noteq> ''undefined''"
    and "\<not> isDispatching st" and "currentReducer st (currentState st) a = Inr s"
  shows "dispatch (Suc n) env a st =
     (case notify n env (nextListeners st) 0 (commit st s) of
        None \<Rightarrow> None
      | Some (Inl e, st') \<Rightarrow> Some (Inl e, st')
      | Some (Inr u, st') \<Rightarrow> Some (Inr a, st'))"
  using assms by (simp add: commit_def Let_def)

lemma frozen_commit: "frozen r st \<Longrightarrow> frozen r (commit st s)"
  by (simp add: frozen_def commit_def)

lemma commit_fields [simp]:
  "arrays (commit st s) = arrays st"
  "nextListeners (commit st s) = nextListeners st"
  "currentState (commit st s) = s"
  "calls (commit st s) = calls st"
  "isDispatching (commit st s) = False"
  "currentListeners (commit st s) = Some (nextListeners st)"
  "subscriptions (commit st s) = subscriptions st"
  "currentReducer (commit st s) = currentReducer st"
  by (simp_all add: commit_def)

lemma frozen_preserved_all:
  "(\<forall>env a st res st' r. dispatch n env a st = Some (res, st') \<longrightarrow> frozen r st \<longrightarrow>
        frozen r st' \<and> arrays st' ! r = arrays st ! r)
   \<and> (\<forall>env l i st res st' r. notify n env l i st = Some (res, st') \<longrightarrow> frozen r st \<longrightarrow>
        frozen r st' \<and> arrays st' ! r = arrays st ! r)
   \<and> (\<forall>env cs st res st' r. run n env cs st = Some (res, st') \<longrightarrow> frozen r st \<longrightarrow>
        frozen r st' \<and> arrays st' ! r = arrays st ! r)"
proof (induction n)
  case 0
  show ?case by simp
next
  case (Suc n)
  have D: "frozen r st' \<and> arrays st' ! r = arrays st ! r"
    if "dispatch n env a st = Some (res, st')" "frozen r st" for env a st res st' r
    using Suc that by blast
  have N: "frozen r st' \<and> arrays st' ! r = arrays st ! r"
    if "notify n env l i st = Some (res, st')" "frozen r st" for env l i st res st' r
    using Suc that by blast
  have R: "frozen r st' \<and> arrays st' ! r = arrays st ! r"
    if "run n env cs st = Some (res, st')" "frozen r st" for env cs st res st' r
    using Suc that by blast
  have d: "frozen r st' \<and> arrays st' ! r = arrays st ! r"
    if h: "dispatch (Suc n) env a st = Some (res, st')" and f: "frozen r st" for env a st res st' r
  proof (cases "\<not> isPlainObject a \<or> typeof (member a ''type'') = ''undefined'' \<or> isDispatching st")
    case True
    with h f show ?thesis by (auto split: if_splits)
  next
    case False
    show ?thesis
    proof (cases "currentReducer st (currentState st) a")
      case (Inl e)
      with h f False show ?thesis by (auto simp: frozen_def)
    next
      case (Inr s)
      have f4: "frozen r (commit st s)" using f by (rule frozen_commit)
      obtain res' where "notify n env (nextListeners st) 0 (commit st s) = Some (res', st')"
        using h False Inr dispatch_Suc [of a st s n env]
        by (auto split: option.splits sum.splits)
      from N [OF this f4] show ?thesis by simp
    qed
  qed
  have nt: "frozen r st' \<and> arrays st' ! r = arrays st ! r"
    if h: "notify (Suc n) env l i st = Some (res, st')" and f: "frozen r st" for env l i st res st' r
  proof (cases "i < length (arrays st ! l)")
    case False
    with h f show ?thesis by simp
  next
    case True
    let ?s = "st\<lparr>calls := calls st @ [arrays st ! l ! i]\<rparr>"
    have fs: "frozen r ?s" using f by simp
    show ?thesis
    proof (cases "run n env (env (arrays st ! l ! i)) ?s")
      case None
      with h True show ?thesis by (simp add: Let_def)
    next
      case (Some p)
      obtain res1 st1 where p: "p = (res1, st1)" by (cases p)
      from R [OF Some [unfolded p] fs] have f1: "frozen r st1" and a1: "arrays st1 ! r = arrays st ! r"
        by simp_all
      show ?thesis
      proof (cases res1)
        case (Inl e)
        with h True Some p f1 a1 show ?thesis by (simp add: Let_def)
      next
        case (Inr u)
        with h True Some p have "notify n env l (i + 1) st1 = Some (res, st')"
          by (simp add: Let_def)
        from N [OF this f1] a1 show ?thesis by simp
      qed
    qed
  qed
  have rn: "frozen r st' \<and> arrays st' ! r = arrays st ! r"
    if h: "run (Suc n) env cs st = Some (res, st')" and f: "frozen r st" for env cs st res st' r
  proof (cases cs)
    case Nil
    with h f show ?thesis by simp
  next
    case (Cons c cs')
    show ?thesis
    proof (cases c)
      case CallGetState
      with h f Cons R show ?thesis
        by (auto split: sum.splits)
    next
      case (CallSubscribe l)
      obtain r1 s1 where s: "subscribe l st = (r1, s1)" by (cases "subscribe l st")
      from subscribe_frozen [OF f s] have f1: "frozen r s1" and a1: "arrays s1 ! r = arrays st ! r"
        by simp_all
      show ?thesis
      proof (cases r1)
        case (Inl e)
        with h Cons CallSubscribe s f1 a1 show ?thesis by simp
      next
        case (Inr hd)
        with h Cons CallSubscribe s have "run n env cs' s1 = Some (res, st')" by simp
        from R [OF this f1] a1 show ?thesis by simp
      qed
    next
      case (CallUnsubscribe hd)
      show ?thesis
      proof (cases "hd < length (subscriptions st)")
        case False
        with h Cons CallUnsubscribe have "run n env cs' st = Some (res, st')" by simp
        from R [OF this f] show ?thesis .
      next
        case True
        obtain r1 s1 where s: "unsubscribe hd st = (r1, s1)" by (cases "unsubscribe hd st")
        from unsubscribe_frozen [OF f s] have f1: "frozen r s1" and a1: "arrays s1 ! r = arrays st ! r"
          by simp_all
        show ?thesis
        proof (cases r1)
          case (Inl e)
          with h Cons CallUnsubscribe True s f1 a1 show ?thesis by simp
        next
          case (Inr u)
          with h Cons CallUnsubscribe True s have "run n env cs' s1 = Some (res, st')" by simp
          from R [OF this f1] a1 show ?thesis by simp
        qed
      qed
    next
      case (CallDispatch a)
      show ?thesis
      proof (cases "dispatch n env a st")
        case None
        with h Cons CallDispatch show ?thesis by simp
      next
        case (Some p)
        obtain r1 s1 where p: "p = (r1, s1)" by (cases p)
        from D [OF Some [unfolded p] f] have f1: "frozen r s1" and a1: "arrays s1 ! r = arrays st ! r"
          by simp_all
        show ?thesis
        proof (cases r1)
          case (Inl e)
          with h Cons CallDispatch Some p f1 a1 show ?thesis by simp
        next
          case (Inr u)
          with h Cons CallDispatch Some p have "run n env cs' s1 = Some (res, st')" by simp
          from R [OF this f1] a1 show ?thesis by simp
        qed
      qed
    next
      case (Throw x)
      with h f Cons show ?thesis by auto
    qed
  qed
  show ?case using d nt rn by blast
qed

lemma run_frozen:
  "run n env cs st = Some (res, st') \<Longrightarrow> frozen r st \<Longrightarrow>
     frozen r st' \<and> arrays st' ! r = arrays st ! r"
  using frozen_preserved_all [of n] by blast

lemma notify_frozen:
  "notify n env l i st = Some (res, st') \<Longrightarrow> frozen r st \<Longrightarrow>
     frozen r st' \<and> arrays st' ! r = arrays st ! r"
  using frozen_preserved_all [of n] by blast

lemma notify_is_snapshot:
  "frozen r st \<Longrightarrow> notify n env r i st = notify_snapshot n env (drop i (arrays st ! r)) st"
proof (induction n arbitrary: i st)
  case 0
  show ?case by simp
next
  case (Suc n)
  show ?case
  proof (cases "i < length (arrays st ! r)")
    case False
    then show ?thesis by simp
  next
    case True
    let ?l = "arrays st ! r ! i"
    let ?s = "st\<lparr>calls := calls st @ [?l]\<rparr>"
    have dr: "drop i (arrays st ! r) = ?l # drop (Suc i) (arrays st ! r)"
      using True by (simp add: Cons_nth_drop_Suc)
    have fs: "frozen r ?s" using Suc.prems by simp
    show ?thesis
    proof (cases "run n env (env ?l) ?s")
      case None
      with True dr show ?thesis by (simp add: Let_def)
    next
      case (Some p)
      obtain res1 st1 where p: "p = (res1, st1)" by (cases p)
      from run_frozen [OF Some [unfolded p] fs]
      have f1: "frozen r st1" and a1: "arrays st1 ! r = arrays st ! r" by simp_all
      show ?thesis
      proof (cases res1)
        case (Inl e)
        with True dr Some p show ?thesis by (simp add: Let_def)
      next
        case (Inr u)
        with True dr Some p Suc.IH [OF f1, of "Suc i"] a1 show ?thesis
          by (simp add: Let_def)
      qed
    qed
  qed
qed

section \<open>Properties of dispatch\<close>

lemma unchanged_state_refl [simp]: "unchanged_state st st"
  by (simp add: unchanged_state_def)

lemma unchanged_state_trans:
  "unchanged_state a b \<Longrightarrow> unchanged_state b c \<Longrightarrow> unchanged_state a c"
  by (simp add: unchanged_state_def)

lemma subscribe_quiet:
  assumes "\<not> isDispatching st"
  shows "\<exists>h st'. subscribe (Function l) st = (Inr h, st') \<and> unchanged_state st st'"
  using assms by (simp add: subscribe_def Let_def unchanged_state_def)

lemma unsubscribe_quiet:
  assumes "\<not> isDispatching st"
  shows "\<exists>st'. unsubscribe h st = (Inr (), st') \<and> unchanged_state st st'"
  using assms by (simp add: unsubscribe_def Let_def unchanged_state_def)

lemma run_quiet:
  "list_all quiet_command cs \<Longrightarrow> \<not> isDispatching st \<Longrightarrow> length cs < n \<Longrightarrow>
     \<exists>st'. run n env cs st = Some (Inr (), st') \<and> unchanged_state st st'"
proof (induction cs arbitrary: n st)
  case Nil
  then obtain k where "n = Suc k" by (cases n) auto
  then show ?case by simp
next
  case (Cons c cs)
  then obtain k where n: "n = Suc k" and k: "length cs < k" by (cases n) auto
  have q: "list_all quiet_command cs" and qc: "quiet_command c" using Cons.prems(1) by simp_all
  show ?case
  proof (cases c)
    case CallGetState
    from Cons.IH [OF q Cons.prems(2) k] show ?thesis
      using n CallGetState Cons.prems(2) by (simp add: getState_def)
  next
    case (CallSubscribe l)
    then obtain f where l: "l = Function f" using qc by (cases l) auto
    obtain h st1 where s: "subscribe (Function f) st = (Inr h, st1)" and u: "unchanged_state st st1"
      using subscribe_quiet [OF Cons.prems(2)] by blast
    have nd: "\<not> isDispatching st1" using u Cons.prems(2) by (simp add: unchanged_state_def)
    from Cons.IH [OF q nd k] obtain st' where
      "run k env cs st1 = Some (Inr (), st')" "unchanged_state st1 st'" by blast
    then show ?thesis
      using n CallSubscribe l s u by (auto intro: unchanged_state_trans)
  next
    case (CallUnsubscribe h)
    show ?thesis
    proof (cases "h < length (subscriptions st)")
      case False
      from Cons.IH [OF q Cons.prems(2) k] show ?thesis
        using n CallUnsubscribe False by simp
    next
      case True
      obtain st1 where s: "unsubscribe h st = (Inr (), st1)" and u: "unchanged_state st st1"
        using unsubscribe_quiet [OF Cons.prems(2)] by blast
      have nd: "\<not> isDispatching st1" using u Cons.prems(2) by (simp add: unchanged_state_def)
      from Cons.IH [OF q nd k] obtain st' where
        "run k env cs st1 = Some (Inr (), st')" "unchanged_state st1 st'" by blast
      then show ?thesis
        using n CallUnsubscribe True s u by (auto intro: unchanged_state_trans)
    qed
  next
    case (CallDispatch a)
    with qc show ?thesis by simp
  next
    case (Throw x)
    with qc show ?thesis by simp
  qed
qed

lemma notify_snapshot_quiet:
  "\<forall>l \<in> set ls. list_all quiet_command (env l) \<and> length (env l) < m \<Longrightarrow>
   \<not> isDispatching st \<Longrightarrow> length ls + m < n \<Longrightarrow>
     \<exists>st'. notify_snapshot n env ls st = Some (Inr (), st') \<and>
           calls st' = calls st @ ls \<and> currentState st' = currentState st \<and>
           \<not> isDispatching st' \<and> currentReducer st' = currentReducer st"
proof (induction ls arbitrary: n st)
  case Nil
  then obtain k where "n = Suc k" by (cases n) auto
  then show ?case using Nil by simp
next
  case (Cons l ls)
  then obtain k where n: "n = Suc k" and k: "length ls + m < k" by (cases n) auto
  let ?s = "st\<lparr>calls := calls st @ [l]\<rparr>"
  have q: "list_all quiet_command (env l)" and len: "length (env l) < k"
    using Cons.prems(1) k by auto
  have nd: "\<not> isDispatching ?s" using Cons.prems(2) by simp
  obtain st1 where r: "run k env (env l) ?s = Some (Inr (), st1)" and u: "unchanged_state ?s st1"
    using run_quiet [OF q nd len] by blast
  have nd1: "\<not> isDispatching st1" using u nd by (simp add: unchanged_state_def)
  have rest: "\<forall>l \<in> set ls. list_all quiet_command (env l) \<and> length (env l) < m"
    using Cons.prems(1) by simp
  from Cons.IH [OF rest nd1 k] obtain st' where
    "notify_snapshot k env ls st1 = Some (Inr (), st')" "calls st' = calls st1 @ ls"
    "currentState st' = currentState st1" "\<not> isDispatching st'" "currentReducer st' = currentReducer st1"
    by blast
  then show ?case
    using n r u by (simp add: unchanged_state_def)
qed

lemma frozen_at_commit:
  "nextListeners st < length (arrays st) \<Longrightarrow> frozen (nextListeners st) (commit st s)"
  by (simp add: frozen_def)

lemma dispatch_snapshot:
  assumes "isPlainObject a" and "typeof (member a ''type'') \<noteq> ''undefined''"
    and "\<not> isDispatching st" and "currentReducer st (currentState st) a = Inr s"
    and "nextListeners st < length (arrays st)"
  shows "dispatch (Suc n) env a st =
     (case notify_snapshot n env (arrays st ! nextListeners st) (commit st s) of
        None \<Rightarrow> None
      | Some (Inl e, st') \<Rightarrow> Some (Inl e, st')
      | Some (Inr u, st') \<Rightarrow> Some (Inr a, st'))"
  using dispatch_Suc [OF assms(1-4), of n env]
    notify_is_snapshot [OF frozen_at_commit [OF assms(5), of s], of n env 0]
  by simp

text \<open>
  C1.  A plain-object action with a defined type, dispatched while the store is not
  dispatching, whose reducer call returns \<open>s\<close>: \<open>dispatch\<close> sets the current state to
  \<open>s\<close> and adopts the pending array, then calls the listeners of that array in their
  order (each listener takes no argument), and returns the action itself.  The listeners
  are taken to return normally: their scripts may read the state, subscribe and
  unsubscribe (for what happens then see C3), and the bound on nested calls is large
  enough for the array and the scripts.  For listeners of any kind, \<open>dispatch\<close> is the
  iteration of the adopted array in the committed store, and it returns the action
  whenever that iteration returns.
\<close>

theorem dispatch_plain_action:
  assumes "isPlainObject a" and "typeof (member a ''type'') \<noteq> ''undefined''"
    and "\<not> isDispatching st"
    and "currentReducer st (currentState st) a = Inr s"
    and "nextListeners st < length (arrays st)"
    and "\<forall>l \<in> set (arrays st ! nextListeners st). list_all quiet_command (env l) \<and> length (env l) < m"
    and "length (arrays st ! nextListeners st) + m < n"
  shows "\<exists>st'. dispatch (Suc n) env a st = Some (Inr a, st') \<and>
           currentState (commit st s) = s \<and>
           currentListeners (commit st s) = Some (nextListeners st) \<and>
           notify_snapshot n env (arrays st ! nextListeners st) (commit st s) = Some (Inr (), st') \<and>
           calls st' = calls st @ arrays st ! nextListeners st \<and>
           currentState st' = s \<and> \<not> isDispatching st' \<and>
           (\<forall>k env'. dispatch (Suc k) env' a st =
              (case notify_snapshot k env' (arrays st ! nextListeners st) (commit st s) of
                 None \<Rightarrow> None
               | Some (Inl e, t) \<Rightarrow> Some (Inl e, t)
               | Some (Inr u, t) \<Rightarrow> Some (Inr a, t)))"
proof -
  have nd: "\<not> isDispatching (commit st s)" by simp
  obtain st' where
    "notify_snapshot n env (arrays st ! nextListeners st) (commit st s) = Some (Inr (), st')"
    "calls st' = calls (commit st s) @ arrays st ! nextListeners st"
    "currentState st' = currentState (commit st s)" "\<not> isDispatching st'"
    using notify_snapshot_quiet [OF assms(6) nd assms(7)] by blast
  then show ?thesis
    using dispatch_snapshot [OF assms(1-5)] by simp
qed

text \<open>
  C4.  For a value that is not a plain object, and for a plain object whose \<open>type\<close> is
  undefined, \<open>dispatch\<close> throws and leaves the store as it was: the current state is the
  same, \<open>getState\<close> answers as before, and no listener has been called.
\<close>

theorem dispatch_rejects:
  assumes "\<not> isPlainObject a \<or> (isPlainObject a \<and> typeof (member a ''type'') = ''undefined'')"
  shows "\<exists>e st'. dispatch (Suc n) env a st = Some (Inl e, st') \<and>
           e = (if \<not> isPlainObject a then ActionsMustBePlainObjects a else UndefinedActionType) \<and>
           st' = st \<and> currentState st' = currentState st \<and> getState st' = getState st \<and>
           calls st' = calls st"
  using assms by auto

text \<open>
  C5.  When the reducer throws during a dispatch, the exception leaves \<open>dispatch\<close>, the
  dispatching flag is false afterwards (the store is as before the call), and later
  calls are not refused for re-entrancy: \<open>getState\<close> returns the state, \<open>subscribe\<close>
  returns an unsubscribe handle, and \<open>dispatch\<close> passes its guard and applies the
  reducer.
\<close>

theorem dispatch_reducer_throws:
  assumes "isPlainObject a" and "typeof (member a ''type'') \<noteq> ''undefined''"
    and "\<not> isDispatching st"
    and "currentReducer st (currentState st) a = Inl e"
  shows "\<exists>st'. dispatch (Suc n) env a st = Some (Inl e, st') \<and>
           \<not> isDispatching st' \<and> st' = st \<and>
           getState st' = Inr (currentState st) \<and>
           (\<exists>h st2. subscribe (Function l) st' = (Inr h, st2)) \<and>
           (isPlainObject a' \<and> typeof (member a' ''type'') \<noteq> ''undefined'' \<longrightarrow>
              dispatch (Suc k) env' a' st' =
                (case currentReducer st' (currentState st') a' of
                   Inl e' \<Rightarrow> Some (Inl e', st')
                 | Inr s' \<Rightarrow>
                     (case notify k env' (nextListeners st') 0 (commit st' s') of
                        None \<Rightarrow> None
                      | Some (Inl x, t) \<Rightarrow> Some (Inl x, t)
                      | Some (Inr u, t) \<Rightarrow> Some (Inr a', t))))"
proof -
  have d: "dispatch (Suc n) env a st = Some (Inl e, st)"
    using assms by simp
  have g: "getState st = Inr (currentState st)"
    using assms(3) by (simp add: getState_def)
  have s: "\<exists>h st2. subscribe (Function l) st = (Inr h, st2)"
    using assms(3) by (simp add: subscribe_def Let_def)
  have n: "dispatch (Suc k) env' a' st =
                (case currentReducer st (currentState st) a' of
                   Inl e' \<Rightarrow> Some (Inl e', st)
                 | Inr s' \<Rightarrow>
                     (case notify k env' (nextListeners st) 0 (commit st s') of
                        None \<Rightarrow> None
                      | Some (Inl x, t) \<Rightarrow> Some (Inl x, t)
                      | Some (Inr u, t) \<Rightarrow> Some (Inr a', t)))"
    if "isPlainObject a'" "typeof (member a' ''type'') \<noteq> ''undefined''"
  proof (cases "currentReducer st (currentState st) a'")
    case (Inl e')
    with that assms(3) show ?thesis by simp
  next
    case (Inr s')
    with dispatch_Suc [OF that assms(3) Inr, of k env'] show ?thesis by simp
  qed
  show ?thesis
    using d g s n assms(3) by simp
qed

lemma subscribe_pending:
  assumes "frozen r t" and "subscribe (Function f) t = (Inr h, t1)"
  shows "nextListeners t1 \<noteq> r \<and> arrays t1 ! nextListeners t1 = arrays t ! nextListeners t @ [f]"
proof -
  let ?e = "ensureCanMutateNextListeners t"
  have nd: "\<not> isDispatching t"
    using assms(2) by (auto simp: subscribe_def split: if_splits)
  have t1: "t1 = ?e\<lparr>arrays := (arrays ?e)[nextListeners ?e := arrays ?e ! nextListeners ?e @ [f]],
                       subscriptions := subscriptions ?e @ [(f, True)]\<rparr>"
    using assms(2) nd by (simp add: subscribe_def Let_def)
  have same: "arrays ?e ! nextListeners ?e = arrays t ! nextListeners t"
    by (simp add: ensureCanMutateNextListeners_def)
  show ?thesis
    using ensure_frozen [OF assms(1)] same unfolding t1 by simp
qed

text \<open>
  C3.  When a dispatch begins to iterate, the store is \<open>frozen\<close> for the array it
  iterates.  In a frozen store \<open>subscribe\<close>, \<open>unsubscribe\<close> and a nested \<open>dispatch\<close> leave
  that array as it is and the store frozen: \<open>subscribe\<close> appends to a pending array
  under another reference, which a later dispatch adopts.  Hence the loop of a dispatch
  is the iteration of the list that the array held when the iteration began, whatever
  the listeners do, and the array is the same when the dispatch has returned.
\<close>

theorem listeners_snapshot:
  assumes "isPlainObject a" and "typeof (member a ''type'') \<noteq> ''undefined''"
    and "\<not> isDispatching st" and "currentReducer st (currentState st) a = Inr s"
    and "nextListeners st < length (arrays st)"
  shows "frozen (nextListeners st) (commit st s)
   \<and> dispatch (Suc n) env a st =
       (case notify_snapshot n env (arrays st ! nextListeners st) (commit st s) of
          None \<Rightarrow> None
        | Some (Inl e, st') \<Rightarrow> Some (Inl e, st')
        | Some (Inr u, st') \<Rightarrow> Some (Inr a, st'))
   \<and> (\<forall>res st'. dispatch (Suc n) env a st = Some (res, st') \<longrightarrow>
         arrays st' ! nextListeners st = arrays st ! nextListeners st)
   \<and> (\<forall>t. frozen (nextListeners st) t \<longrightarrow>
        (\<forall>f h t1. subscribe (Function f) t = (Inr h, t1) \<longrightarrow>
            frozen (nextListeners st) t1 \<and>
            arrays t1 ! nextListeners st = arrays t ! nextListeners st \<and>
            nextListeners t1 \<noteq> nextListeners st \<and>
            arrays t1 ! nextListeners t1 = arrays t ! nextListeners t @ [f])
      \<and> (\<forall>h res t1. unsubscribe h t = (res, t1) \<longrightarrow>
            frozen (nextListeners st) t1 \<and>
            arrays t1 ! nextListeners st = arrays t ! nextListeners st)
      \<and> (\<forall>k env' a' res t1. dispatch k env' a' t = Some (res, t1) \<longrightarrow>
            frozen (nextListeners st) t1 \<and>
            arrays t1 ! nextListeners st = arrays t ! nextListeners st)
      \<and> (\<forall>k env' i. notify k env' (nextListeners st) i t =
            notify_snapshot k env' (drop i (arrays t ! nextListeners st)) t))"
proof -
  let ?r = "nextListeners st"
  have fr: "frozen ?r (commit st s)"
    using assms(5) by (rule frozen_at_commit)
  have eq: "dispatch (Suc n) env a st =
       (case notify_snapshot n env (arrays st ! ?r) (commit st s) of
          None \<Rightarrow> None
        | Some (Inl e, st') \<Rightarrow> Some (Inl e, st')
        | Some (Inr u, st') \<Rightarrow> Some (Inr a, st'))"
    using assms by (rule dispatch_snapshot)
  have unchanged: "arrays st' ! ?r = arrays st ! ?r"
    if "dispatch (Suc n) env a st = Some (res, st')" for res st'
  proof -
    from that have "(case notify n env ?r 0 (commit st s) of
          None \<Rightarrow> None
        | Some (Inl e, st') \<Rightarrow> Some (Inl e, st')
        | Some (Inr u, st') \<Rightarrow> Some (Inr a, st')) = Some (res, st')"
      by (simp only: dispatch_Suc [OF assms(1-4)])
    then obtain res' where "notify n env ?r 0 (commit st s) = Some (res', st')"
      by (auto split: option.splits sum.splits)
    from notify_frozen [OF this fr] show ?thesis by simp
  qed
  have sub: "frozen ?r t1 \<and> arrays t1 ! ?r = arrays t ! ?r \<and> nextListeners t1 \<noteq> ?r \<and>
            arrays t1 ! nextListeners t1 = arrays t ! nextListeners t @ [f]"
    if "frozen ?r t" "subscribe (Function f) t = (Inr h, t1)" for t f h t1
    using subscribe_frozen [OF that] subscribe_pending [OF that] by simp
  have unsub: "frozen ?r t1 \<and> arrays t1 ! ?r = arrays t ! ?r"
    if "frozen ?r t" "unsubscribe h t = (res, t1)" for t h res t1
    using unsubscribe_frozen [OF that] .
  have nested: "frozen ?r t1 \<and> arrays t1 ! ?r = arrays t ! ?r"
    if "frozen ?r t" "dispatch k env' a' t = Some (res, t1)" for t k env' a' res t1
    using frozen_preserved_all [of k] that by blast
  have loop: "notify k env' ?r i t = notify_snapshot k env' (drop i (arrays t ! ?r)) t"
    if "frozen ?r t" for t k env' i
    using that by (rule notify_is_snapshot)
  show ?thesis
    using fr eq unchanged sub unsub nested loop by blast
qed

text \<open>
  The store that \<open>createStore\<close> returns when no enhancer is present: the reducer's answer
  to the INIT action is the state, no listener is subscribed, and both listener variables
  hold the same, allocated reference.
\<close>

lemma createStore_plain_store:
  assumes "r preloadedState (Ref (object_literal i [(''type'', Str (INIT types))])) = Inr s"
  shows "createStore_plain (Suc (Suc n)) env types i (Function r) preloadedState =
           Some (Inr \<lparr>currentReducer = r, currentState = s, currentListeners = Some 0,
                       nextListeners = 0, isDispatching = False, arrays = [[]],
                       subscriptions = [], calls = []\<rparr>)"
  using assms
  by (simp add: createStore_plain_def isPlainObject_def getPrototypeOf_def object_literal_def
        ObjectPrototype_def member_def)

text \<open>
  C8.  \<open>createStore\<close> throws when the preloaded state and the enhancer are both
  functions, or the enhancer and a fourth argument are.  A function as the preloaded
  state with an undefined enhancer is taken as the enhancer, and the preloaded state
  becomes undefined.  With an enhancer that is a function, \<open>createStore\<close> returns what
  the enhancer, applied to the store creator, returns for the reducer and the preloaded
  state.  The store creator it hands over is \<open>createStore\<close> on a reducer and a
  preloaded state.
\<close>

theorem createStore_normalization:
  "((is_function preloadedState \<and> is_function enhancer) \<or>
    (is_function enhancer \<and> is_function arguments3) \<longrightarrow>
      createStore n env types i reducer preloadedState enhancer arguments3 =
        Some (Inl SeveralEnhancers))
   \<and> (is_undefined enhancer \<longrightarrow>
        createStore n env types i reducer (Function e) enhancer arguments3 =
          e (createStore_plain n env types i) reducer Undefined)
   \<and> (\<not> is_function arguments3 \<longrightarrow>
        createStore n env types i reducer (Value p) (Function e) arguments3 =
          e (createStore_plain n env types i) reducer p)
   \<and> createStore n env types i reducer (Value p) (Value Undefined) (Value Undefined) =
        createStore_plain n env types i reducer p"
proof -
  have u: "\<not> is_function enhancer" if "is_undefined enhancer"
    using that by (cases enhancer) auto
  show ?thesis
    using u by (auto simp: createStore_def Let_def)
qed

section \<open>The example store\<close>

lemmas example_defs = action_of_def counter_def failing_def example_store_def
  example_listeners_def quiet_listeners_def object_literal_def ObjectPrototype_def
  isPlainObject_def getPrototypeOf_def member_def

lemmas store_defs = getState_def subscribe_def unsubscribe_def
  ensureCanMutateNextListeners_def splice1_def commit_def Let_def

lemma example_hypotheses:
  "isPlainObject (action_of 20 ''+'')"
  "typeof (member (action_of 20 ''+'') ''type'') \<noteq> ''undefined''"
  "\<not> isDispatching example_store"
  "currentReducer example_store (currentState example_store) (action_of 20 ''+'') = Inr (Num 1)"
  "nextListeners example_store < length (arrays example_store)"
  by (simp_all add: example_defs)

lemma example_snapshot: "arrays example_store ! nextListeners example_store = [5, 6]"
  by (simp add: example_store_def)

theorem dispatch_plain_action_witness:
  "isPlainObject (action_of 20 ''+'')
   \<and> typeof (member (action_of 20 ''+'') ''type'') \<noteq> ''undefined''
   \<and> \<not> isDispatching example_store
   \<and> currentReducer example_store (currentState example_store) (action_of 20 ''+'') = Inr (Num 1)
   \<and> nextListeners example_store < length (arrays example_store)
   \<and> list_all (\<lambda>l. list_all quiet_command (quiet_listeners l) \<and> length (quiet_listeners l) < 3)
        (arrays example_store ! nextListeners example_store)
   \<and> length (arrays example_store ! nextListeners example_store) + 3 < 6
   \<and> (\<exists>st'. dispatch (Suc 6) quiet_listeners (action_of 20 ''+'') example_store =
               Some (Inr (action_of 20 ''+''), st')
          \<and> calls st' = [5, 6] \<and> currentState st' = Num 1 \<and> \<not> isDispatching st')"
proof -
  have q: "\<forall>l \<in> set (arrays example_store ! nextListeners example_store).
             list_all quiet_command (quiet_listeners l) \<and> length (quiet_listeners l) < 3"
    by (simp add: example_snapshot quiet_listeners_def)
  have f: "length (arrays example_store ! nextListeners example_store) + 3 < 6"
    by (simp add: example_snapshot)
  have c: "calls example_store = []"
    by (simp add: example_store_def)
  from dispatch_plain_action [OF example_hypotheses q f]
  obtain st' where
    "dispatch (Suc 6) quiet_listeners (action_of 20 ''+'') example_store =
       Some (Inr (action_of 20 ''+''), st')"
    "calls st' = calls example_store @ arrays example_store ! nextListeners example_store"
    "currentState st' = Num 1" "\<not> isDispatching st'"
    by blast
  then have "\<exists>st'. dispatch (Suc 6) quiet_listeners (action_of 20 ''+'') example_store =
               Some (Inr (action_of 20 ''+''), st')
          \<and> calls st' = [5, 6] \<and> currentState st' = Num 1 \<and> \<not> isDispatching st'"
    by (simp add: c example_snapshot)
  moreover have "list_all (\<lambda>l. list_all quiet_command (quiet_listeners l) \<and> length (quiet_listeners l) < 3)
        (arrays example_store ! nextListeners example_store)"
    using q by (simp add: list_all_iff)
  ultimately show ?thesis
    using example_hypotheses f by simp
qed

theorem dispatch_rejects_witness:
  "\<not> isPlainObject (Num 3)
   \<and> dispatch (Suc 0) example_listeners (Num 3) example_store =
       Some (Inl (ActionsMustBePlainObjects (Num 3)), example_store)
   \<and> isPlainObject (Ref (object_literal 22 [(''kind'', Str ''+'')]))
   \<and> typeof (member (Ref (object_literal 22 [(''kind'', Str ''+'')])) ''type'') = ''undefined''
   \<and> dispatch (Suc 0) example_listeners (Ref (object_literal 22 [(''kind'', Str ''+'')])) example_store =
       Some (Inl UndefinedActionType, example_store)"
proof -
  have a: "\<not> isPlainObject (Num 3)"
    by (simp add: isPlainObject_def)
  have b: "isPlainObject (Ref (object_literal 22 [(''kind'', Str ''+'')]))"
    "typeof (member (Ref (object_literal 22 [(''kind'', Str ''+'')])) ''type'') = ''undefined''"
    by (simp_all add: example_defs)
  from dispatch_rejects [OF disjI1 [OF a], of 0 example_listeners example_store]
  have r1: "dispatch (Suc 0) example_listeners (Num 3) example_store =
       Some (Inl (ActionsMustBePlainObjects (Num 3)), example_store)"
    using a by auto
  from dispatch_rejects [OF disjI2 [OF conjI [OF b]], of 0 example_listeners example_store]
  have r2: "dispatch (Suc 0) example_listeners (Ref (object_literal 22 [(''kind'', Str ''+'')]))
       example_store = Some (Inl UndefinedActionType, example_store)"
    using b(1) by auto
  show ?thesis
    using a b r1 r2 by simp
qed

theorem dispatch_reducer_throws_witness:
  "isPlainObject (action_of 20 ''+'')
   \<and> typeof (member (action_of 20 ''+'') ''type'') \<noteq> ''undefined''
   \<and> \<not> isDispatching (example_store\<lparr>currentReducer := failing\<rparr>)
   \<and> currentReducer (example_store\<lparr>currentReducer := failing\<rparr>)
       (currentState (example_store\<lparr>currentReducer := failing\<rparr>)) (action_of 20 ''+'') =
       Inl (Thrown (Str ''boom''))
   \<and> (\<exists>st'. dispatch (Suc 0) example_listeners (action_of 20 ''+'')
               (example_store\<lparr>currentReducer := failing\<rparr>) = Some (Inl (Thrown (Str ''boom'')), st')
          \<and> \<not> isDispatching st' \<and> getState st' = Inr (Num 0))"
proof -
  let ?st = "example_store\<lparr>currentReducer := failing\<rparr>"
  have h: "isPlainObject (action_of 20 ''+'')"
    "typeof (member (action_of 20 ''+'') ''type'') \<noteq> ''undefined''"
    "\<not> isDispatching ?st"
    "currentReducer ?st (currentState ?st) (action_of 20 ''+'') = Inl (Thrown (Str ''boom''))"
    by (simp_all add: example_defs)
  have s: "currentState ?st = Num 0"
    by (simp add: example_store_def)
  from dispatch_reducer_throws [OF h, of 0 example_listeners]
  obtain st' where
    "dispatch (Suc 0) example_listeners (action_of 20 ''+'') ?st = Some (Inl (Thrown (Str ''boom'')), st')"
    "\<not> isDispatching st'" "getState st' = Inr (currentState ?st)"
    by blast
  then have "\<exists>st'. dispatch (Suc 0) example_listeners (action_of 20 ''+'') ?st =
                Some (Inl (Thrown (Str ''boom'')), st')
          \<and> \<not> isDispatching st' \<and> getState st' = Inr (Num 0)"
    by (simp add: s)
  with h show ?thesis by simp
qed

lemma example_notification:
  "\<exists>st'. notify_snapshot 9 example_listeners [5, 6] (commit example_store (Num 1)) =
            Some (Inr (), st')
     \<and> calls st' = [5, 6, 7, 6] \<and> currentState st' = Num 0
     \<and> arrays st' = [[5, 6], [6, 7]] \<and> nextListeners st' = 1"
  by (simp add: example_defs store_defs eval_nat_numeral)

theorem listeners_snapshot_witness:
  "isPlainObject (action_of 20 ''+'')
   \<and> typeof (member (action_of 20 ''+'') ''type'') \<noteq> ''undefined''
   \<and> \<not> isDispatching example_store
   \<and> currentReducer example_store (currentState example_store) (action_of 20 ''+'') = Inr (Num 1)
   \<and> nextListeners example_store < length (arrays example_store)
   \<and> frozen (nextListeners example_store) (commit example_store (Num 1))
   \<and> (\<exists>st'. dispatch (Suc 9) example_listeners (action_of 20 ''+'') example_store =
               Some (Inr (action_of 20 ''+''), st')
          \<and> calls st' = [5, 6, 7, 6]
          \<and> arrays st' ! nextListeners example_store = [5, 6]
          \<and> arrays st' ! nextListeners st' = [6, 7])"
proof -
  note t = listeners_snapshot [OF example_hypotheses, of 9 example_listeners]
  from t have fr: "frozen (nextListeners example_store) (commit example_store (Num 1))"
    by blast
  from t have eq: "dispatch (Suc 9) example_listeners (action_of 20 ''+'') example_store =
       (case notify_snapshot 9 example_listeners
               (arrays example_store ! nextListeners example_store) (commit example_store (Num 1)) of
          None \<Rightarrow> None
        | Some (Inl e, st') \<Rightarrow> Some (Inl e, st')
        | Some (Inr u, st') \<Rightarrow> Some (Inr (action_of 20 ''+''), st'))"
    by blast
  obtain st' where n: "notify_snapshot 9 example_listeners [5, 6] (commit example_store (Num 1)) =
            Some (Inr (), st')"
    and c: "calls st' = [5, 6, 7, 6]" and a: "arrays st' = [[5, 6], [6, 7]]"
    and nx: "nextListeners st' = 1"
    using example_notification by blast
  have d: "dispatch (Suc 9) example_listeners (action_of 20 ''+'') example_store =
               Some (Inr (action_of 20 ''+''), st')"
    unfolding eq example_snapshot n by simp
  have r: "nextListeners example_store = 0"
    by (simp add: example_store_def)
  have "\<exists>st'. dispatch (Suc 9) example_listeners (action_of 20 ''+'') example_store =
               Some (Inr (action_of 20 ''+''), st')
          \<and> calls st' = [5, 6, 7, 6]
          \<and> arrays st' ! nextListeners example_store = [5, 6]
          \<and> arrays st' ! nextListeners st' = [6, 7]"
    using d c a nx r by simp
  with example_hypotheses fr show ?thesis by simp
qed

theorem createStore_normalization_witness:
  "is_function (Function preload41 :: enhancer arg)
   \<and> createStore 2 quiet_listeners example_types 30 (Function counter)
        (Function preload41) (Function preload41) (Value Undefined) = Some (Inl SeveralEnhancers)
   \<and> is_undefined (Value Undefined :: enhancer arg)
   \<and> createStore 2 quiet_listeners example_types 30 (Function counter)
        (Function preload41) (Value Undefined) (Value Undefined) =
      createStore_plain 2 quiet_listeners example_types 30 (Function counter) (Num 41)
   \<and> \<not> is_function (Value Undefined :: enhancer arg)
   \<and> createStore 2 quiet_listeners example_types 30 (Function counter)
        (Value (Num 7)) (Function preload41) (Value Undefined) =
      createStore_plain 2 quiet_listeners example_types 30 (Function counter) (Num 41)
   \<and> (\<exists>st. createStore_plain 2 quiet_listeners example_types 30 (Function counter) (Num 41) =
              Some (Inr st) \<and> currentState st = Num 41 \<and> calls st = [])"
proof -
  note t = createStore_normalization
    [of "Function preload41" "Function preload41" "Value Undefined" 2 quiet_listeners
        example_types 30 "Function counter" preload41 "Num 7"]
  note u = createStore_normalization
    [of "Function preload41" "Value Undefined" "Value Undefined" 2 quiet_listeners
        example_types 30 "Function counter" preload41 "Num 7"]
  have f: "is_function (Function preload41 :: enhancer arg)"
    and un: "is_undefined (Value Undefined :: enhancer arg)"
    and nf: "\<not> is_function (Value Undefined :: enhancer arg)"
    by simp_all
  from t f have a: "createStore 2 quiet_listeners example_types 30 (Function counter)
        (Function preload41) (Function preload41) (Value Undefined) = Some (Inl SeveralEnhancers)"
    by blast
  from u un have b: "createStore 2 quiet_listeners example_types 30 (Function counter)
        (Function preload41) (Value Undefined) (Value Undefined) =
      createStore_plain 2 quiet_listeners example_types 30 (Function counter) (Num 41)"
    by (simp add: preload41_def)
  from u nf have c: "createStore 2 quiet_listeners example_types 30 (Function counter)
        (Value (Num 7)) (Function preload41) (Value Undefined) =
      createStore_plain 2 quiet_listeners example_types 30 (Function counter) (Num 41)"
    by (simp add: preload41_def)
  have d: "\<exists>st. createStore_plain 2 quiet_listeners example_types 30 (Function counter) (Num 41) =
              Some (Inr st) \<and> currentState st = Num 41 \<and> calls st = []"
    by (simp add: createStore_plain_def example_defs example_types_def eval_nat_numeral)
  show ?thesis
    using f un nf a b c d by simp
qed

section \<open>Properties of combineReducers\<close>










lemma init_call_Cons [simp]:
  "init_call types i (p # rs) 0 = snd p (Data Undefined) (init_action types i)"
  "init_call types i (p # rs) (Suc j) = init_call types (i + 2) rs j"
  by (simp_all add: init_call_def)

lemma probe_call_Cons [simp]:
  "probe_call types i k (p # rs) 0 = snd p (Data Undefined) (probe_action types (i + 1) k)"
  "probe_call types i k (p # rs) (Suc j) = probe_call types (i + 2) (k + 1) rs j"
  by (simp_all add: probe_call_def)













section \<open>The example reducers\<close>

lemmas reducer_defs = example_types_def counter_def toggle_def idle_def echo_state_def
  throw0_def picky_def as_slice_def state_literal_def
  action_of_def object_literal_def ObjectPrototype_def member_def isPlainObject_def
  getPrototypeOf_def read_def builtin_member_def object_prototype_functions_def
  set_function_def combineReducers_def combination_def combination_body_def
  state_shape_warning_def hasOwnProperty_def combine_slices_def
  init_action_def probe_action_def slices_unchanged_def
  returns_defined_def slice_result_def no_rethrow_def Let_def




text \<open>
  A reducer under the key \<open>__proto__\<close> becomes the prototype of \<open>finalReducers\<close> and is no
  slice reducer; after it, a reducer under the key \<open>name\<close> makes \<open>combineReducers\<close>
  throw.
\<close>

lemma combineReducers_prototype_replaced:
  "(case combineReducers example_types 40 0
           [(''__proto__'', Function (as_slice toggle)), (''a'', Function (as_slice counter))] of
      Inl e \<Rightarrow> False
    | Inr c \<Rightarrow> finalReducers c = [(''a'', as_slice counter)] \<and> shapeAssertionError c = None)
   \<and> combineReducers example_types 40 0
         [(''__proto__'', Function (as_slice toggle)), (''name'', Function (as_slice counter))] =
       Inl (TypeError ''name'')"
  by (simp add: reducer_defs)





end
